theory Spec2Isabelle
  imports Complex_Main
begin

section \<open>The Korean map page: data model and operations\<close>

subsection \<open>Viewer navigation (onViewAssets, navigateNext, navigatePrevious)\<close>

text \<open>
  The page keeps the session in two variables, \<open>viewingAssets\<close> (a string array) and
  \<open>viewingAssetCursor\<close> (a number, here an \<open>int\<close>: the guard of \<open>navigateNext\<close>
  computes \<open>length - 1\<close>, which is \<open>-1\<close> for the empty array). The asset viewing
  store and the navigation helper are collaborators outside the page; the calls the page
  makes to them are recorded, in order, in \<open>calls\<close>.
\<close>

datatype effect = SetAssetId "string option" | Navigate "string option"

record viewer =
  viewingAssets :: "string list"
  viewingAssetCursor :: int
  viewingAsset :: "string option"
  showAssetViewer :: bool
  location :: "string option"
  calls :: "effect list"

text \<open>A JavaScript array read \<open>xs[i]\<close>: \<open>None\<close> stands for \<open>undefined\<close>.\<close>

definition js_index :: "'a list \<Rightarrow> int \<Rightarrow> 'a option" where
  "js_index xs i = (if 0 \<le> i \<and> i < int (length xs) then Some (xs ! nat i) else None)"

text \<open>
  Modelled from the spec: \<open>setAssetId\<close> of the asset viewing store
  (lib/stores/asset-viewing.store, not part of the page) makes the asset with the given id
  the displayed one and shows the viewer.
\<close>

definition setAssetId :: "string option \<Rightarrow> viewer \<Rightarrow> viewer" where
  "setAssetId a v =
     v\<lparr>viewingAsset := a, showAssetViewer := True, calls := calls v @ [SetAssetId a]\<rparr>"

text \<open>
  Modelled from the spec: \<open>navigate\<close> (lib/utils/navigation, not part of the page) with
  target route \<open>current\<close> makes the shareable location reference the given asset, or no
  asset for \<open>null\<close>.
\<close>

definition navigate :: "string option \<Rightarrow> viewer \<Rightarrow> viewer" where
  "navigate a v = v\<lparr>location := a, calls := calls v @ [Navigate a]\<rparr>"

definition onViewAssets :: "string list \<Rightarrow> viewer \<Rightarrow> viewer" where
  "onViewAssets assetIds v =
     setAssetId (js_index assetIds 0) (v\<lparr>viewingAssets := assetIds, viewingAssetCursor := 0\<rparr>)"

definition navigateNext :: "viewer \<Rightarrow> bool \<times> viewer" where
  "navigateNext v =
     (if viewingAssetCursor v < int (length (viewingAssets v)) - 1 then
        let v1 = v\<lparr>viewingAssetCursor := viewingAssetCursor v + 1\<rparr>;
            v2 = setAssetId (js_index (viewingAssets v1) (viewingAssetCursor v1)) v1;
            v3 = navigate (viewingAsset v2) v2
        in (True, v3)
      else (False, v))"

definition navigatePrevious :: "viewer \<Rightarrow> bool \<times> viewer" where
  "navigatePrevious v =
     (if viewingAssetCursor v > 0 then
        let v1 = v\<lparr>viewingAssetCursor := viewingAssetCursor v - 1\<rparr>;
            v2 = setAssetId (js_index (viewingAssets v1) (viewingAssetCursor v1)) v1;
            v3 = navigate (viewingAsset v2) v2
        in (True, v3)
      else (False, v))"

text \<open>The \<open>onClose\<close> handler given to the asset viewer.\<close>

definition onClose :: "viewer \<Rightarrow> viewer" where
  "onClose v = navigate None (v\<lparr>showAssetViewer := False\<rparr>)"

text \<open>The page as it is when the component is created.\<close>

definition initial_viewer :: viewer where
  "initial_viewer =
     \<lparr>viewingAssets = [], viewingAssetCursor = 0, viewingAsset = None,
      showAssetViewer = False, location = None, calls = []\<rparr>"

text \<open>
  The open state of the spec's navigator: the id list is not empty and the cursor is an
  index of it.
\<close>

definition is_open :: "viewer \<Rightarrow> bool" where
  "is_open v \<longleftrightarrow>
     viewingAssets v \<noteq> [] \<and> 0 \<le> viewingAssetCursor v \<and>
     viewingAssetCursor v < int (length (viewingAssets v))"

text \<open>The cursor after \<open>open\<close> and after each of three calls of \<open>next\<close>.\<close>

definition cursor_trace :: "string list \<Rightarrow> viewer \<Rightarrow> int list" where
  "cursor_trace ids v =
     (let v0 = onViewAssets ids v;
          v1 = snd (navigateNext v0);
          v2 = snd (navigateNext v1);
          v3 = snd (navigateNext v2)
      in map viewingAssetCursor [v0, v1, v2, v3])"

definition after_two_next :: "string list \<Rightarrow> viewer \<Rightarrow> viewer" where
  "after_two_next ids v = snd (navigateNext (snd (navigateNext (onViewAssets ids v))))"

subsection \<open>Markers, clusters and their click handlers\<close>

text \<open>
  One \<open>MapMarkerResponseDto\<close> per asset, as the marker request returns it. The page
  builds one map marker per record and stores the asset id on it
  (\<open>m.set('id', o.id)\<close>); the click handlers read it back as the property \<open>id\<close>.
\<close>

record mapMarkerResponseDto =
  dto_id :: string
  dto_lat :: real
  dto_lon :: real

record marker =
  position :: "real \<times> real"
  marker_id :: string

definition make_marker :: "mapMarkerResponseDto \<Rightarrow> marker" where
  "make_marker o' = \<lparr>position = (dto_lat o', dto_lon o'), marker_id = dto_id o'\<rparr>"

text \<open>
  A cluster of the clustering plugin: \<open>_clusterMember\<close> holds its member markers in the
  order they were added.
\<close>

record cluster =
  clusterMember :: "marker list"

text \<open>The click listener that \<open>stylingFunction\<close> registers on a cluster marker.\<close>

definition cluster_click :: "cluster \<Rightarrow> viewer \<Rightarrow> viewer" where
  "cluster_click c v = (let ids = map marker_id (clusterMember c) in onViewAssets ids v)"

text \<open>The click listener registered on each single marker.\<close>

definition marker_click :: "marker \<Rightarrow> viewer \<Rightarrow> viewer" where
  "marker_click m v = onViewAssets [marker_id m] v"

definition three_markers :: "mapMarkerResponseDto list" where
  "three_markers =
     [\<lparr>dto_id = ''m1'', dto_lat = 37, dto_lon = 127\<rparr>,
      \<lparr>dto_id = ''m2'', dto_lat = 37, dto_lon = 127\<rparr>,
      \<lparr>dto_id = ''m3'', dto_lat = 38, dto_lon = 127\<rparr>]"

subsection \<open>Filter derivation and the marker request (getFileCreatedDates, loadMapMarkers)\<close>

text \<open>The fields of the \<open>mapSettings\<close> preference store that the page reads.\<close>

record mapSettings =
  includeArchived :: bool
  onlyFavorites :: bool
  withPartners :: bool
  withSharedAlbums :: bool
  relativeDate :: string
  dateAfter :: string
  dateBefore :: string

text \<open>
  The date library and the built-in \<open>Date\<close> are taken as parameters. Times are
  milliseconds since the epoch. \<open>Duration_fromISO\<close> gives \<open>None\<close> for a string whose
  duration is not valid (\<open>duration.isValid\<close> is false). \<open>DateTime_minus\<close> may leave
  the range of date-times; \<open>DateTime_toISO\<close> gives \<open>None\<close> for such an invalid
  date-time, where \<open>toISO()\<close> returns \<open>null\<close>. \<open>Date_parse\<close> gives \<open>None\<close>
  for a string that \<open>new Date\<close> turns into an invalid date, on which
  \<open>toISOString\<close> throws a \<open>RangeError\<close>.
\<close>

record 'd clock =
  Duration_fromISO :: "string \<Rightarrow> 'd option"
  DateTime_minus :: "int \<Rightarrow> 'd \<Rightarrow> int"
  DateTime_toISO :: "int \<Rightarrow> string option"
  Date_parse :: "string \<Rightarrow> int option"
  Date_toISOString :: "int \<Rightarrow> string"

datatype js_error = RangeError | AbortError

text \<open>
  The object that \<open>getFileCreatedDates\<close> returns. \<open>None\<close> stands for a field that
  is \<open>undefined\<close> or \<open>null\<close>; the request treats the two alike
  (\<open>fileCreatedAfter || undefined\<close>).
\<close>

record createdDates =
  fileCreatedAfter :: "string option"
  fileCreatedBefore :: "string option"

text \<open>\<open>new Date(s).toISOString()\<close>.\<close>

definition toISOString_of :: "'d clock \<Rightarrow> string \<Rightarrow> js_error + string" where
  "toISOString_of K s =
     (case Date_parse K s of None \<Rightarrow> Inl RangeError | Some t \<Rightarrow> Inr (Date_toISOString K t))"

text \<open>
  The object literal inside \<open>try\<close>: \<open>dateAfter\<close> is converted first, then
  \<open>dateBefore\<close>; an empty string is falsy and gives \<open>undefined\<close> without parsing.
\<close>

definition absolute_dates :: "'d clock \<Rightarrow> mapSettings \<Rightarrow> js_error + createdDates" where
  "absolute_dates K ms =
     (case (if dateAfter ms \<noteq> [] then map_sum id Some (toISOString_of K (dateAfter ms))
            else Inr None) of
        Inl e \<Rightarrow> Inl e
      | Inr a \<Rightarrow>
          (case (if dateBefore ms \<noteq> [] then map_sum id Some (toISOString_of K (dateBefore ms))
                 else Inr None) of
             Inl e \<Rightarrow> Inl e
           | Inr b \<Rightarrow> Inr \<lparr>fileCreatedAfter = a, fileCreatedBefore = b\<rparr>))"

text \<open>
  \<open>getFileCreatedDates\<close> at the time \<open>now\<close>; it returns the dates and the settings
  store, which the \<open>catch\<close> branch changes.
\<close>

definition getFileCreatedDates ::
  "'d clock \<Rightarrow> int \<Rightarrow> mapSettings \<Rightarrow> createdDates \<times> mapSettings" where
  "getFileCreatedDates K now ms =
     (if relativeDate ms \<noteq> [] then
        (case Duration_fromISO K (relativeDate ms) of
           Some duration \<Rightarrow>
             (\<lparr>fileCreatedAfter = DateTime_toISO K (DateTime_minus K now duration),
               fileCreatedBefore = None\<rparr>, ms)
         | None \<Rightarrow> (\<lparr>fileCreatedAfter = None, fileCreatedBefore = None\<rparr>, ms))
      else
        (case absolute_dates K ms of
           Inr dates \<Rightarrow> (dates, ms)
         | Inl e \<Rightarrow>
             (\<lparr>fileCreatedAfter = None, fileCreatedBefore = None\<rparr>,
              ms\<lparr>dateAfter := [], dateBefore := []\<rparr>)))"

text \<open>The query of the marker request.\<close>

record markerQuery =
  isArchived :: "bool option"
  isFavorite :: "bool option"
  q_fileCreatedAfter :: "string option"
  q_fileCreatedBefore :: "string option"
  q_withPartners :: "bool option"
  q_withSharedAlbums :: "bool option"

text \<open>\<open>b || undefined\<close> for a boolean and for an optional string.\<close>

definition or_undefined :: "bool \<Rightarrow> bool option" where
  "or_undefined b = (if b then Some True else None)"

definition string_or_undefined :: "string option \<Rightarrow> string option" where
  "string_or_undefined s = (case s of Some (c # cs) \<Rightarrow> Some (c # cs) | _ \<Rightarrow> None)"

text \<open>
  Abort controllers are numbered in the order they are created; \<open>controllers l ! c\<close>
  tells whether \<open>abort()\<close> was called on controller \<open>c\<close>. A request carries the
  controller of its signal. It is in flight while no response has arrived and its signal
  is not aborted: a fetch whose signal is aborted rejects with an \<open>AbortError\<close> and its
  response is dropped.
\<close>

record request =
  query :: markerQuery
  signal :: nat
  responded :: bool

record loader =
  mapSettings :: mapSettings
  abortController :: "nat option"
  controllers :: "bool list"
  requests :: "request list"
  delivered :: "nat list"

definition abort :: "nat \<Rightarrow> bool list \<Rightarrow> bool list" where
  "abort c cs = cs[c := True]"

text \<open>\<open>loadMapMarkers\<close> returns the index of the request it issues.\<close>

definition loadMapMarkers :: "'d clock \<Rightarrow> int \<Rightarrow> loader \<Rightarrow> nat \<times> loader" where
  "loadMapMarkers K now l =
     (let cs = (case abortController l of Some c \<Rightarrow> abort c (controllers l)
                | None \<Rightarrow> controllers l);
          c = length cs;
          ms = mapSettings l;
          (dates, ms') = getFileCreatedDates K now ms;
          q = \<lparr>isArchived = or_undefined (includeArchived ms),
               isFavorite = or_undefined (onlyFavorites ms),
               q_fileCreatedAfter = string_or_undefined (fileCreatedAfter dates),
               q_fileCreatedBefore = fileCreatedBefore dates,
               q_withPartners = or_undefined (withPartners ms),
               q_withSharedAlbums = or_undefined (withSharedAlbums ms)\<rparr>
      in (length (requests l),
          l\<lparr>mapSettings := ms', abortController := Some c, controllers := cs @ [False],
            requests := requests l @ [\<lparr>query = q, signal = c, responded = False\<rparr>]\<rparr>))"

definition in_flight :: "loader \<Rightarrow> nat \<Rightarrow> bool" where
  "in_flight l i \<longleftrightarrow>
     i < length (requests l) \<and> \<not> responded (requests l ! i) \<and>
     signal (requests l ! i) < length (controllers l) \<and>
     \<not> controllers l ! signal (requests l ! i)"

definition in_flight_requests :: "loader \<Rightarrow> nat list" where
  "in_flight_requests l = filter (in_flight l) [0..<length (requests l)]"

text \<open>
  The response to request \<open>i\<close> arrives: it is handed to the awaiting caller (recorded in
  \<open>delivered\<close>) if the request is in flight, and dropped otherwise.
\<close>

definition respond :: "nat \<Rightarrow> loader \<Rightarrow> loader" where
  "respond i l =
     (if in_flight l i then
        l\<lparr>requests := (requests l)[i := (requests l ! i)\<lparr>responded := True\<rparr>],
          delivered := delivered l @ [i]\<rparr>
      else l)"

text \<open>\<open>abortController?.abort()\<close>, as the teardown calls it.\<close>

definition abort_current :: "loader \<Rightarrow> loader" where
  "abort_current l =
     (case abortController l of Some c \<Rightarrow> l\<lparr>controllers := abort c (controllers l)\<rparr>
      | None \<Rightarrow> l)"

text \<open>
  What can happen to the loader, in any order: a call of \<open>loadMapMarkers\<close> at some
  time, the arrival of a response, a change of the settings store, the teardown's abort.
\<close>

datatype loader_event = Load int | Respond nat | ChangeSettings mapSettings | AbortCurrent

fun loader_step :: "'d clock \<Rightarrow> loader_event \<Rightarrow> loader \<Rightarrow> loader" where
  "loader_step K (Load now) l = snd (loadMapMarkers K now l)"
| "loader_step K (Respond i) l = respond i l"
| "loader_step K (ChangeSettings ms) l = l\<lparr>mapSettings := ms\<rparr>"
| "loader_step K AbortCurrent l = abort_current l"

fun loader_run :: "'d clock \<Rightarrow> loader_event list \<Rightarrow> loader \<Rightarrow> loader" where
  "loader_run K [] l = l"
| "loader_run K (e # es) l = loader_run K es (loader_step K e l)"

text \<open>The loader when the component is created: \<open>abortController\<close> is \<open>null\<close>.\<close>

definition initial_loader :: "mapSettings \<Rightarrow> loader" where
  "initial_loader ms =
     \<lparr>mapSettings = ms, abortController = None, controllers = [], requests = [], delivered = []\<rparr>"

text \<open>
  Invariants of the loader: every call creates one controller and one request with that
  controller's signal, \<open>abortController\<close> is the newest controller, and every older
  controller is aborted; responses are delivered in the order of their requests.
\<close>

definition loader_inv :: "loader \<Rightarrow> bool" where
  "loader_inv l \<longleftrightarrow>
     length (controllers l) = length (requests l) \<and>
     (\<forall>i < length (requests l). signal (requests l ! i) = i) \<and>
     abortController l = (if requests l = [] then None else Some (length (requests l) - 1)) \<and>
     (\<forall>i. Suc i < length (controllers l) \<longrightarrow> controllers l ! i)"

definition delivered_inv :: "loader \<Rightarrow> bool" where
  "delivered_inv l \<longleftrightarrow>
     sorted_wrt (<) (delivered l) \<and>
     (\<forall>d \<in> set (delivered l). d < length (requests l) \<and> responded (requests l ! d))"

text \<open>
  A sample clock and sample settings, for concrete runs. The clock knows two durations,
  seven days and 999999999 years (of 365 days), in milliseconds, and the range of valid
  date-times, 100 million days on either side of the epoch.
\<close>

definition sample_iso :: "int \<Rightarrow> string" where
  "sample_iso t = (if t = 0 then ''1970-01-01T00:00:00.000Z'' else ''later'')"

definition sample_local_iso :: "int \<Rightarrow> string" where
  "sample_local_iso t = (if t = 0 then ''1970-01-01T00:00:00.000+00:00'' else ''later'')"

definition sample_clock :: "int clock" where
  "sample_clock =
     \<lparr>Duration_fromISO =
        (\<lambda>s. if s = ''P7D'' then Some 604800000
             else if s = ''P999999999Y'' then Some 31535999968464000000 else None),
      DateTime_minus = (\<lambda>t d. t - d),
      DateTime_toISO =
        (\<lambda>t. if - 8640000000000000 \<le> t \<and> t \<le> 8640000000000000
             then Some (sample_local_iso t)
             else None),
      Date_parse = (\<lambda>s. if s = ''1970-01-01'' then Some 0 else None),
      Date_toISOString = sample_iso\<rparr>"

definition sample_settings :: mapSettings where
  "sample_settings =
     \<lparr>includeArchived = False, onlyFavorites = True, withPartners = False,
      withSharedAlbums = False, relativeDate = [], dateAfter = [], dateBefore = []\<rparr>"

subsection \<open>Script loading (appendScriptOnce, loadNaverStack)\<close>

text \<open>
  A script element of the document: the string assigned to its \<open>src\<close>, the string that
  reading \<open>src\<close> gives back (the document resolves the URL), whether its load is pending,
  done or failed, and the futures whose \<open>resolve\<close> and \<open>reject\<close> are registered for its
  \<open>load\<close> and \<open>error\<close> events, in the order of registration (the creator's
  \<open>onload\<close> and \<open>onerror\<close> first, then the listeners of later callers).
\<close>

datatype settlement = Resolved | Rejected

datatype load_state = Loading | Loaded | Failed

record script_element =
  assigned_src :: string
  src_property :: string
  load_state :: load_state
  waiters :: "nat list"

text \<open>
  The document: its script elements in document order, the futures that
  \<open>appendScriptOnce\<close> has returned (for each the calls of \<open>resolve\<close> and \<open>reject\<close>
  made on it, oldest first; the empty list is a pending future), and the two globals the
  readiness checks look at.
\<close>

record document =
  scripts :: "script_element list"
  futures :: "settlement list list"
  window_naver_maps :: bool
  window_MarkerClustering :: bool

text \<open>
  The branch for an existing element: the first element whose \<open>src\<close> reads as the
  requested string gets the new future as a further waiter; \<open>None\<close> if there is no such
  element.
\<close>

fun attach :: "nat \<Rightarrow> string \<Rightarrow> script_element list \<Rightarrow> script_element list option" where
  "attach p src [] = None"
| "attach p src (s # ss) =
     (if src_property s = src then Some (s\<lparr>waiters := waiters s @ [p]\<rparr> # ss)
      else map_option ((#) s) (attach p src ss))"

text \<open>
  \<open>appendScriptOnce\<close> returns its future and the document. \<open>href\<close> is the document's
  resolution of a \<open>src\<close> string, a parameter.
\<close>

definition appendScriptOnce ::
  "(string \<Rightarrow> string) \<Rightarrow> string \<Rightarrow> (document \<Rightarrow> bool) \<Rightarrow> document \<Rightarrow> nat \<times> document" where
  "appendScriptOnce href src ready d =
     (let p = length (futures d) in
      if ready d then (p, d\<lparr>futures := futures d @ [[Resolved]]\<rparr>)
      else
        (case attach p src (scripts d) of
           Some ss \<Rightarrow> (p, d\<lparr>scripts := ss, futures := futures d @ [[]]\<rparr>)
         | None \<Rightarrow>
             (p, d\<lparr>scripts := scripts d @
                     [\<lparr>assigned_src = src, src_property = href src, load_state = Loading,
                       waiters = [p]\<rparr>],
                   futures := futures d @ [[]]\<rparr>)))"

text \<open>
  The \<open>load\<close> or \<open>error\<close> event of the \<open>i\<close>-th script element. A script element
  fires one of them, once, when its pending load ends; the registered handlers run in the
  order of registration.
\<close>

datatype script_event = LoadEvent | ErrorEvent

definition settle :: "settlement \<Rightarrow> nat \<Rightarrow> settlement list list \<Rightarrow> settlement list list" where
  "settle out p fs = fs[p := fs ! p @ [out]]"

definition fire :: "script_event \<Rightarrow> nat \<Rightarrow> document \<Rightarrow> document" where
  "fire ev i d =
     (if i < length (scripts d) \<and> load_state (scripts d ! i) = Loading then
        d\<lparr>scripts := (scripts d)[i := (scripts d ! i)
                \<lparr>load_state := (case ev of LoadEvent \<Rightarrow> Loaded | ErrorEvent \<Rightarrow> Failed)\<rparr>],
          futures := fold (settle (case ev of LoadEvent \<Rightarrow> Resolved | ErrorEvent \<Rightarrow> Rejected))
                       (waiters (scripts d ! i)) (futures d)\<rparr>
      else d)"

text \<open>
  What can happen to the document, in any order: a call of \<open>appendScriptOnce\<close>, an
  event of a script element, a script run that changes the two globals.
\<close>

datatype doc_event =
  Call string "document \<Rightarrow> bool" | Fire script_event nat | SetGlobals bool bool

fun doc_step :: "(string \<Rightarrow> string) \<Rightarrow> doc_event \<Rightarrow> document \<Rightarrow> document" where
  "doc_step href (Call src ready) d = snd (appendScriptOnce href src ready d)"
| "doc_step href (Fire ev i) d = fire ev i d"
| "doc_step href (SetGlobals a b) d = d\<lparr>window_naver_maps := a, window_MarkerClustering := b\<rparr>"

fun doc_run :: "(string \<Rightarrow> string) \<Rightarrow> doc_event list \<Rightarrow> document \<Rightarrow> document" where
  "doc_run href [] d = d"
| "doc_run href (e # es) d = doc_run href es (doc_step href e d)"

definition empty_document :: document where
  "empty_document =
     \<lparr>scripts = [], futures = [], window_naver_maps = False, window_MarkerClustering = False\<rparr>"

text \<open>The number of script elements that were given the string \<open>src\<close>.\<close>

definition inserted :: "string \<Rightarrow> document \<Rightarrow> nat" where
  "inserted src d = length (filter (\<lambda>e. assigned_src e = src) (scripts d))"


text \<open>
  Invariants of the document: every element reads back the resolution of what it was
  given; waiters are futures of the document, each registered once; the waiters of a
  pending element are unsettled; no future is settled twice.
\<close>

definition doc_inv :: "(string \<Rightarrow> string) \<Rightarrow> document \<Rightarrow> bool" where
  "doc_inv href d \<longleftrightarrow>
     (\<forall>e \<in> set (scripts d). src_property e = href (assigned_src e)) \<and>
     (\<forall>e \<in> set (scripts d). \<forall>p \<in> set (waiters e). p < length (futures d)) \<and>
     distinct (concat (map waiters (scripts d))) \<and>
     (\<forall>e \<in> set (scripts d). load_state e = Loading \<longrightarrow>
        (\<forall>p \<in> set (waiters e). futures d ! p = [])) \<and>
     (\<forall>f \<in> set (futures d). length f \<le> 1)"



definition mapsUrl :: "string \<Rightarrow> string" where
  "mapsUrl client_id = ''https://oapi.map.naver.com/openapi/v3/maps.js?ncpKeyId='' @ client_id"

definition clusteringUrl :: string where
  "clusteringUrl = ''/MarkerClustering.js''"








text \<open>
  A sample resolution of \<open>src\<close> strings: a path is resolved against the page's origin, an
  absolute URL is read back as it is.
\<close>

definition sample_href :: "string \<Rightarrow> string" where
  "sample_href src = (if take 1 src = ''/'' then ''https://photos.example'' @ src else src)"

text \<open>
  A readiness check that fails, a resolution that leaves every string as it is, and sample
  runs on the document without script elements: the clustering plugin requested twice
  while not ready, the mapping library requested twice while not ready, and the mapping
  library requested, its load failing, and requested again.
\<close>

definition never_ready :: "document \<Rightarrow> bool" where
  "never_ready d = False"


definition clustering_called_twice :: document where
  "clustering_called_twice =
     doc_run sample_href [Call clusteringUrl never_ready, Call clusteringUrl never_ready]
       empty_document"

definition maps_called_twice :: document where
  "maps_called_twice =
     doc_run sample_href [Call (mapsUrl ''id'') never_ready, Call (mapsUrl ''id'') never_ready]
       empty_document"

definition failed_then_called_again :: document where
  "failed_then_called_again =
     doc_run sample_href
       [Call (mapsUrl ''id'') never_ready, Fire ErrorEvent 0, Call (mapsUrl ''id'') never_ready]
       empty_document"


subsection \<open>Startup and teardown (the onMount callback and the function it returns)\<close>

text \<open>
  The listeners registered through \<open>naver.maps.Event.addListener\<close>: each has the handle
  that \<open>addListener\<close> returned, the object it listens on and the event name.
\<close>

datatype target = MapTarget | MarkerTarget nat | ClusterTarget nat

datatype event_name = Click | MouseOver | MouseOut | IdleEvent

record listener =
  handle :: nat
  target :: target
  event_name :: event_name

text \<open>
  The page's map state: the marker loader, the registered listeners, the next free
  listener handle, whether the map was constructed, the markers built so far, and the
  clusterer (\<open>None\<close> while there is none, otherwise whether it is attached to the map).
\<close>

record page =
  loader :: loader
  listeners :: "listener list"
  next_handle :: nat
  map_created :: bool
  markers :: "marker list"
  clusterer_on_map :: "bool option"

definition addListener :: "target \<Rightarrow> event_name \<Rightarrow> page \<Rightarrow> nat \<times> page" where
  "addListener t n pg =
     (next_handle pg,
      pg\<lparr>listeners := listeners pg @ [\<lparr>handle = next_handle pg, target = t, event_name = n\<rparr>],
         next_handle := Suc (next_handle pg)\<rparr>)"

definition removeListener :: "nat \<Rightarrow> page \<Rightarrow> page" where
  "removeListener h pg = pg\<lparr>listeners := filter (\<lambda>l. handle l \<noteq> h) (listeners pg)\<rparr>"

text \<open>
  The callback of \<open>markerList.map\<close>: one marker per record, with its \<open>mouseover\<close> and
  \<open>mouseout\<close> listeners.
\<close>

fun create_markers :: "mapMarkerResponseDto list \<Rightarrow> page \<Rightarrow> page" where
  "create_markers [] pg = pg"
| "create_markers (o' # os) pg =
     (let i = length (markers pg);
          pg1 = snd (addListener (MarkerTarget i) MouseOver pg);
          pg2 = snd (addListener (MarkerTarget i) MouseOut pg1)
      in create_markers os (pg2\<lparr>markers := markers pg2 @ [make_marker o']\<rparr>))"

text \<open>The loop \<open>markers.forEach\<close> that registers the click listener of each marker.\<close>

definition register_clicks :: "page \<Rightarrow> page" where
  "register_clicks pg =
     fold (\<lambda>i p. snd (addListener (MarkerTarget i) Click p)) [0..<length (markers pg)] pg"

text \<open>
  \<open>stylingFunction\<close>, which the clustering plugin calls for a cluster marker: it
  registers the cluster's \<open>click\<close>, \<open>mouseover\<close> and \<open>mouseout\<close> listeners.
\<close>

definition stylingFunction :: "nat \<Rightarrow> page \<Rightarrow> page" where
  "stylingFunction c pg =
     (let pg1 = snd (addListener (ClusterTarget c) Click pg);
          pg2 = snd (addListener (ClusterTarget c) MouseOver pg1)
      in snd (addListener (ClusterTarget c) MouseOut pg2))"

text \<open>
  The function that \<open>onMount\<close>'s callback returns keeps the handle of the idle
  listener; the clusterer and the abort controller it reaches through the page.
\<close>

record cleanup =
  idleListener :: nat

text \<open>
  The callback given to \<open>onMount\<close>. \<open>stack_ok\<close> tells whether \<open>loadNaverStack\<close>
  resolved, \<open>fetched\<close> is the marker list of the response or \<open>None\<close> if the request
  was rejected, and \<open>cs\<close> are the cluster markers that the plugin styles while the
  clusterer is constructed. A rejection is caught by the \<open>catch\<close> around the whole
  body, and the callback then returns nothing.
\<close>

definition onMount ::
  "'d clock \<Rightarrow> int \<Rightarrow> bool \<Rightarrow> mapMarkerResponseDto list option \<Rightarrow> nat list \<Rightarrow> page \<Rightarrow>
   cleanup option \<times> page" where
  "onMount K now stack_ok fetched cs pg =
     (if \<not> stack_ok then (None, pg)
      else
        (let (r, l) = loadMapMarkers K now (loader pg) in
         case fetched of
           None \<Rightarrow> (None, pg\<lparr>loader := l\<rparr>)
         | Some markerList \<Rightarrow>
             (let pg1 = pg\<lparr>loader := respond r l, map_created := True\<rparr>;
                  pg2 = create_markers markerList pg1;
                  pg3 = fold stylingFunction cs (pg2\<lparr>clusterer_on_map := Some True\<rparr>);
                  (idle, pg4) = addListener MapTarget IdleEvent pg3;
                  pg5 = register_clicks pg4
              in (Some \<lparr>idleListener = idle\<rparr>, pg5))))"

text \<open>
  The returned function: \<open>removeListener(idleListener)\<close>, \<open>mc?.setMap(null)\<close>,
  \<open>abortController?.abort()\<close>.
\<close>

definition run_cleanup :: "cleanup \<Rightarrow> page \<Rightarrow> page" where
  "run_cleanup c pg =
     (let pg1 = removeListener (idleListener c) pg;
          pg2 = pg1\<lparr>clusterer_on_map := map_option (\<lambda>attached. False) (clusterer_on_map pg1)\<rparr>
      in pg2\<lparr>loader := abort_current (loader pg2)\<rparr>)"

definition initial_page :: "mapSettings \<Rightarrow> page" where
  "initial_page ms =
     \<lparr>loader = initial_loader ms, listeners = [], next_handle = 0, map_created = False,
      markers = [], clusterer_on_map = None\<rparr>"

text \<open>
  What the framework receives from the callback given to \<open>onMount\<close>. The page's
  callback is an async function, so the framework receives a promise of whatever the
  callback returns. At unmount the framework calls the received value if it is a function;
  a promise is dropped.
\<close>

datatype callback_result = ReturnedFunction cleanup | ReturnedPromise "cleanup option"

definition mount ::
  "'d clock \<Rightarrow> int \<Rightarrow> bool \<Rightarrow> mapMarkerResponseDto list option \<Rightarrow> nat list \<Rightarrow> page \<Rightarrow>
   callback_result \<times> page" where
  "mount K now stack_ok fetched cs pg =
     (let (c, pg') = onMount K now stack_ok fetched cs pg in (ReturnedPromise c, pg'))"

definition unmount :: "callback_result \<Rightarrow> page \<Rightarrow> page" where
  "unmount r pg =
     (case r of ReturnedFunction c \<Rightarrow> run_cleanup c pg | ReturnedPromise c \<Rightarrow> pg)"

text \<open>
  A complete startup of the fresh page with one marker and no cluster; and the fresh page
  while its startup is suspended at the \<open>await\<close> of the marker request.
\<close>

definition one_marker_mounted :: "callback_result \<times> page" where
  "one_marker_mounted =
     mount sample_clock 0 True (Some [\<lparr>dto_id = ''m1'', dto_lat = 37, dto_lon = 127\<rparr>]) []
       (initial_page sample_settings)"

definition awaiting_markers :: page where
  "awaiting_markers =
     (initial_page sample_settings)
       \<lparr>loader := snd (loadMapMarkers sample_clock 0 (initial_loader sample_settings))\<rparr>"

section \<open>Properties of the viewer navigation\<close>

lemma js_index_0_Cons [simp]: "js_index (x # xs) 0 = Some x"
  by (simp add: js_index_def)

lemma js_index_Nil [simp]: "js_index [] i = None"
  by (simp add: js_index_def)

lemma onViewAssets_session:
  "viewingAssets (onViewAssets ids v) = ids \<and> viewingAssetCursor (onViewAssets ids v) = 0"
  by (simp add: onViewAssets_def setAssetId_def)

lemma navigateNext_session:
  "viewingAssets (snd (navigateNext v)) = viewingAssets v \<and>
   viewingAssetCursor (snd (navigateNext v)) =
     (if viewingAssetCursor v < int (length (viewingAssets v)) - 1
      then viewingAssetCursor v + 1 else viewingAssetCursor v)"
  by (simp add: navigateNext_def setAssetId_def navigate_def Let_def)

lemma navigateNext_at_end:
  "\<not> viewingAssetCursor v < int (length (viewingAssets v)) - 1 \<Longrightarrow> navigateNext v = (False, v)"
  by (simp add: navigateNext_def)

lemma cursor_trace_abc: "cursor_trace [a, b, c] v = [0, 1, 2, 2]"
  by (simp add: cursor_trace_def Let_def navigateNext_session onViewAssets_session)

text \<open>
  C1, as the spec states it: after \<open>open(["a","b","c"])\<close> the cursor runs 0,1,1,1 over
  three calls of \<open>next\<close>. The code gives 0,1,2,2: the second \<open>next\<close> still finds
  \<open>cursor < len - 1\<close>.
\<close>

theorem C1_cursor_sequence_counterexample:
  "cursor_trace [''a'', ''b'', ''c''] initial_viewer \<noteq> [0, 1, 1, 1]"
  by (simp add: cursor_trace_abc)

text \<open>
  C1, amended: from any state, \<open>open(["a","b","c"])\<close> followed by three calls of
  \<open>next\<close> gives the cursor sequence 0,1,2,2; the third \<open>next\<close> returns failure and
  changes nothing. In general \<open>next\<close> returns success exactly when
  \<open>cursor < len - 1\<close>; then it adds one to the cursor and keeps the id list, and
  otherwise it returns the state as it was.
\<close>

theorem C1_next_cursor_semantics:
  "cursor_trace [''a'', ''b'', ''c''] v = [0, 1, 2, 2] \<and>
   navigateNext (after_two_next [''a'', ''b'', ''c''] v)
     = (False, after_two_next [''a'', ''b'', ''c''] v) \<and>
   fst (navigateNext w) = (viewingAssetCursor w < int (length (viewingAssets w)) - 1) \<and>
   viewingAssets (snd (navigateNext w)) = viewingAssets w \<and>
   viewingAssetCursor (snd (navigateNext w))
     = (if fst (navigateNext w) then viewingAssetCursor w + 1 else viewingAssetCursor w) \<and>
   (fst (navigateNext w) \<or> snd (navigateNext w) = w)"
proof -
  let ?u = "after_two_next [''a'', ''b'', ''c''] v"
  have len: "viewingAssets ?u = [''a'', ''b'', ''c'']" and cur: "viewingAssetCursor ?u = 2"
    by (simp_all add: after_two_next_def navigateNext_session onViewAssets_session)
  have third: "navigateNext ?u = (False, ?u)"
    by (rule navigateNext_at_end) (simp add: len cur)
  have ok: "fst (navigateNext w) = (viewingAssetCursor w < int (length (viewingAssets w)) - 1)"
    by (simp add: navigateNext_def Let_def)
  have stay: "fst (navigateNext w) \<or> snd (navigateNext w) = w"
    by (simp add: navigateNext_def Let_def)
  show ?thesis
    using third ok stay by (simp add: cursor_trace_abc navigateNext_session)
qed

theorem C1_next_cursor_semantics_witness:
  "cursor_trace [''a'', ''b'', ''c''] initial_viewer = [0, 1, 2, 2] \<and>
   \<not> fst (navigateNext (onViewAssets [''a''] initial_viewer)) \<and>
   snd (navigateNext (onViewAssets [''a''] initial_viewer)) = onViewAssets [''a''] initial_viewer"
  using C1_next_cursor_semantics [of initial_viewer "onViewAssets [''a''] initial_viewer"]
  by (auto simp: onViewAssets_session)

text \<open>
  C7: a click on a cluster calls \<open>onViewAssets\<close> with the ids of all its members in
  member order, and a click on a single marker calls it with the one-element list of that
  marker's asset id; the list becomes the session's id list as it is. For members built
  from the records m1, m2, m3 the list is exactly m1, m2, m3.
\<close>

theorem C7_click_hands_over_member_ids:
  "cluster_click c v = onViewAssets (map marker_id (clusterMember c)) v \<and>
   viewingAssets (cluster_click c v) = map marker_id (clusterMember c) \<and>
   viewingAssets (cluster_click \<lparr>clusterMember = map make_marker os\<rparr> v) = map dto_id os \<and>
   viewingAssets (cluster_click \<lparr>clusterMember = map make_marker three_markers\<rparr> v)
     = [''m1'', ''m2'', ''m3''] \<and>
   marker_click m v = onViewAssets [marker_id m] v \<and>
   viewingAssets (marker_click (make_marker o') v) = [dto_id o']"
proof -
  have ids: "map (marker_id \<circ> make_marker) xs = map dto_id xs" for xs
    by (induction xs) (simp_all add: make_marker_def)
  have three: "map dto_id three_markers = [''m1'', ''m2'', ''m3'']"
    by (simp add: three_markers_def)
  show ?thesis
    by (simp add: cluster_click_def marker_click_def onViewAssets_session ids three
        make_marker_def)
qed

theorem C7_click_hands_over_member_ids_witness:
  "viewingAssets (cluster_click \<lparr>clusterMember = map make_marker three_markers\<rparr> initial_viewer)
     = [''m1'', ''m2'', ''m3''] \<and>
   viewingAssets
     (marker_click (make_marker \<lparr>dto_id = ''m1'', dto_lat = 37, dto_lon = 127\<rparr>) initial_viewer)
     = [''m1'']"
proof -
  note inst = C7_click_hands_over_member_ids
    [of "\<lparr>clusterMember = map make_marker three_markers\<rparr>" initial_viewer three_markers
        "make_marker \<lparr>dto_id = ''m1'', dto_lat = 37, dto_lon = 127\<rparr>"
        "\<lparr>dto_id = ''m1'', dto_lat = 37, dto_lon = 127\<rparr>"]
  from inst have cluster:
    "viewingAssets (cluster_click \<lparr>clusterMember = map make_marker three_markers\<rparr> initial_viewer)
       = [''m1'', ''m2'', ''m3'']"
    by blast
  from inst have
    "viewingAssets
       (marker_click (make_marker \<lparr>dto_id = ''m1'', dto_lat = 37, dto_lon = 127\<rparr>) initial_viewer)
       = [dto_id \<lparr>dto_id = ''m1'', dto_lat = 37, dto_lon = 127\<rparr>]"
    by blast
  then have single:
    "viewingAssets
       (marker_click (make_marker \<lparr>dto_id = ''m1'', dto_lat = 37, dto_lon = 127\<rparr>) initial_viewer)
       = [''m1'']"
    by simp
  from cluster single show ?thesis by (rule conjI)
qed

text \<open>
  What \<open>onViewAssets\<close> does, from any state: it replaces the session by the given list
  with the cursor at 0 and asks the viewing store to display \<open>ids[0]\<close>; that is its
  only call, so the shareable location stays as it was.
\<close>

lemma onViewAssets_effect:
  "viewingAssets (onViewAssets ids v) = ids \<and>
   viewingAssetCursor (onViewAssets ids v) = 0 \<and>
   viewingAsset (onViewAssets ids v) = js_index ids 0 \<and>
   showAssetViewer (onViewAssets ids v) \<and>
   calls (onViewAssets ids v) = calls v @ [SetAssetId (js_index ids 0)] \<and>
   location (onViewAssets ids v) = location v"
  by (simp add: onViewAssets_def setAssetId_def)

text \<open>
  C8: after \<open>open(ids)\<close> the shareable location should reference \<open>ids[0]\<close>.
  \<open>onViewAssets\<close> puts the session at cursor 0 and has \<open>ids[0]\<close> displayed, but it
  makes no call of \<open>navigate\<close>, which \<open>navigateNext\<close>, \<open>navigatePrevious\<close> and
  \<open>onClose\<close> all make. After \<open>open(["a"])\<close> on the fresh page the session is open on
  \<open>a\<close>, the one call made is \<open>setAssetId("a")\<close>, and the location references no
  asset; after \<open>open(["a","b"])\<close> on a page whose location references \<open>x\<close> the
  location still references \<open>x\<close>, and only the following \<open>next\<close> moves it.
\<close>

theorem C8_open_makes_no_navigate_call:
  "is_open (onViewAssets [''a''] initial_viewer) \<and>
   viewingAssetCursor (onViewAssets [''a''] initial_viewer) = 0 \<and>
   viewingAsset (onViewAssets [''a''] initial_viewer) = Some ''a'' \<and>
   calls (onViewAssets [''a''] initial_viewer) = [SetAssetId (Some ''a'')] \<and>
   location (onViewAssets [''a''] initial_viewer) = None \<and>
   location (onViewAssets [''a'', ''b''] (navigate (Some ''x'') initial_viewer)) = Some ''x'' \<and>
   location (snd (navigateNext (onViewAssets [''a'', ''b''] (navigate (Some ''x'') initial_viewer))))
     = Some ''b'' \<and>
   location (onClose (onViewAssets [''a'', ''b''] (navigate (Some ''x'') initial_viewer))) = None"
  by (simp add: onViewAssets_def setAssetId_def navigate_def navigateNext_def onClose_def
      is_open_def initial_viewer_def Let_def js_index_def)

text \<open>
  C10: \<open>open\<close> with the empty id list is not rejected. The session becomes the empty
  list with the cursor at 0, which is not the open state, and the display call receives
  \<open>ids[0]\<close>, which is undefined.
\<close>

theorem C10_open_empty_not_rejected:
  "viewingAssets (onViewAssets [] v) = [] \<and>
   viewingAssetCursor (onViewAssets [] v) = 0 \<and>
   calls (onViewAssets [] v) = calls v @ [SetAssetId None] \<and>
   \<not> is_open (onViewAssets [] v)"
  by (simp add: onViewAssets_def setAssetId_def is_open_def)

theorem C10_open_empty_not_rejected_witness:
  "viewingAssets (onViewAssets [] (onViewAssets [''a''] initial_viewer)) = [] \<and>
   calls (onViewAssets [] (onViewAssets [''a''] initial_viewer))
     = [SetAssetId (Some ''a''), SetAssetId None]"
  using C10_open_empty_not_rejected [of "onViewAssets [''a''] initial_viewer"]
  by (simp add: onViewAssets_def setAssetId_def initial_viewer_def)

section \<open>Properties of the marker loader\<close>

lemma loader_inv_initial: "loader_inv (initial_loader ms)"
  by (simp add: loader_inv_def initial_loader_def)

lemma loader_inv_load: "loader_inv l \<Longrightarrow> loader_inv (snd (loadMapMarkers K now l))"
  by (cases "requests l = []")
    (auto simp: loader_inv_def loadMapMarkers_def Let_def abort_def nth_append nth_list_update
      split: prod.splits option.splits)

lemma loader_inv_respond: "loader_inv l \<Longrightarrow> loader_inv (respond i l)"
  by (auto simp: loader_inv_def respond_def in_flight_def nth_list_update)

lemma loader_inv_abort_current: "loader_inv l \<Longrightarrow> loader_inv (abort_current l)"
  by (auto simp: loader_inv_def abort_current_def abort_def nth_list_update split: option.splits)

lemma loader_inv_step: "loader_inv l \<Longrightarrow> loader_inv (loader_step K e l)"
  by (cases e) (simp_all add: loader_inv_load loader_inv_respond loader_inv_abort_current,
      simp add: loader_inv_def)

lemma loader_inv_run: "loader_inv l \<Longrightarrow> loader_inv (loader_run K es l)"
  by (induction es arbitrary: l) (simp_all add: loader_inv_step)

lemma in_flight_is_last: "loader_inv l \<Longrightarrow> in_flight l i \<Longrightarrow> Suc i = length (requests l)"
  unfolding loader_inv_def in_flight_def
  by (metis Suc_lessI)

lemma in_flight_requests_cases:
  assumes "loader_inv l"
  shows "in_flight_requests l = [] \<or> in_flight_requests l = [length (requests l) - 1]"
proof (cases "requests l = []")
  case True
  then show ?thesis by (simp add: in_flight_requests_def)
next
  case False
  then obtain n where n: "length (requests l) = Suc n"
    by (cases "requests l") auto
  have "filter (in_flight l) [0..<n] = []"
    using in_flight_is_last [OF assms] n by (auto simp: filter_empty_conv)
  then show ?thesis
    by (simp add: in_flight_requests_def n)
qed

lemma delivered_inv_respond: "delivered_inv l \<Longrightarrow> loader_inv l \<Longrightarrow> delivered_inv (respond i l)"
proof (cases "in_flight l i")
  case False
  assume "delivered_inv l"
  with False show ?thesis by (simp add: respond_def)
next
  case True
  assume d: "delivered_inv l" and inv: "loader_inv l"
  have i: "i < length (requests l)" "\<not> responded (requests l ! i)"
    using True by (simp_all add: in_flight_def)
  have less: "d < i" if "d \<in> set (delivered l)" for d
  proof -
    have "d < length (requests l)" "responded (requests l ! d)"
      using d that by (simp_all add: delivered_inv_def)
    moreover have "Suc i = length (requests l)"
      using in_flight_is_last [OF inv True] .
    ultimately show ?thesis using i(2) by (cases "d = i") auto
  qed
  show ?thesis
    using True d i less
    by (auto simp: delivered_inv_def respond_def sorted_wrt_append nth_list_update)
qed

lemma delivered_inv_step:
  "delivered_inv l \<Longrightarrow> loader_inv l \<Longrightarrow> delivered_inv (loader_step K e l)"
proof (cases e)
  case (Load now)
  assume "delivered_inv l"
  then show ?thesis
    by (auto simp: Load delivered_inv_def loadMapMarkers_def Let_def nth_append
        split: prod.splits)
next
  case (Respond i)
  assume "delivered_inv l" "loader_inv l"
  then show ?thesis by (simp add: Respond delivered_inv_respond)
next
  case (ChangeSettings ms)
  assume "delivered_inv l"
  then show ?thesis by (simp add: ChangeSettings delivered_inv_def)
next
  case AbortCurrent
  assume "delivered_inv l"
  then show ?thesis
    by (simp add: AbortCurrent delivered_inv_def abort_current_def split: option.splits)
qed

lemma delivered_inv_run:
  "delivered_inv l \<Longrightarrow> loader_inv l \<Longrightarrow> delivered_inv (loader_run K es l)"
  by (induction es arbitrary: l) (simp_all add: delivered_inv_step loader_inv_step)

lemma respond_stale: "loader_inv l \<Longrightarrow> respond i l = l \<or> Suc i = length (requests l)"
  using in_flight_is_last [of l i] by (auto simp: respond_def)

lemma load_in_flight:
  assumes "loader_inv l"
  shows "in_flight_requests (snd (loadMapMarkers K now l)) = [length (requests l)]"
proof -
  let ?l' = "snd (loadMapMarkers K now l)"
  have inv': "loader_inv ?l'" by (rule loader_inv_load [OF assms])
  have len: "length (requests ?l') = Suc (length (requests l))"
    by (simp add: loadMapMarkers_def Let_def split: prod.splits)
  have "in_flight ?l' (length (requests l))"
    using assms
    by (auto simp: in_flight_def loadMapMarkers_def Let_def loader_inv_def abort_def nth_append
        split: prod.splits option.splits)
  then have "in_flight_requests ?l' \<noteq> []"
    by (auto simp: in_flight_requests_def len filter_empty_conv)
  with in_flight_requests_cases [OF inv'] show ?thesis by (simp add: len)
qed

lemma load_aborts_previous:
  assumes "loader_inv l"
  shows "butlast (controllers (snd (loadMapMarkers K now l))) = replicate (length (requests l)) True"
proof -
  have "controllers (snd (loadMapMarkers K now l)) ! i" if "i < length (requests l)" for i
    using assms that
    by (cases "requests l = []")
      (auto simp: loadMapMarkers_def Let_def loader_inv_def abort_def nth_append nth_list_update
        split: prod.splits option.splits)
  moreover have "length (controllers (snd (loadMapMarkers K now l))) = Suc (length (requests l))"
    using assms
    by (auto simp: loadMapMarkers_def Let_def loader_inv_def abort_def split: prod.splits option.splits)
  ultimately show ?thesis
    by (auto simp: list_eq_iff_nth_eq nth_butlast)
qed

text \<open>
  C2: for every sequence of calls of the load operation on the fresh page, interleaved in
  any way with arriving responses, settings changes and the teardown's abort, at most one
  marker fetch is in flight, and it is the newest one. Each call aborts every controller created before
  its own, so after it exactly its own request is in flight. The response to a request
  that is not the newest is dropped, and the responses that are delivered come in the
  order of their requests: a stale response never follows a newer one.
\<close>

theorem C2_at_most_one_fetch_in_flight:
  "length (in_flight_requests (loader_run K es (initial_loader ms))) \<le> 1 \<and>
   (in_flight_requests (loader_run K es (initial_loader ms)) = [] \<or>
    in_flight_requests (loader_run K es (initial_loader ms))
      = [length (requests (loader_run K es (initial_loader ms))) - 1]) \<and>
   butlast (controllers (snd (loadMapMarkers K now (loader_run K es (initial_loader ms)))))
     = replicate (length (requests (loader_run K es (initial_loader ms)))) True \<and>
   in_flight_requests (snd (loadMapMarkers K now (loader_run K es (initial_loader ms))))
     = [length (requests (loader_run K es (initial_loader ms)))] \<and>
   (respond i (loader_run K es (initial_loader ms)) = loader_run K es (initial_loader ms) \<or>
    Suc i = length (requests (loader_run K es (initial_loader ms)))) \<and>
   sorted_wrt (<) (delivered (loader_run K es (initial_loader ms)))"
proof -
  let ?l = "loader_run K es (initial_loader ms)"
  have inv: "loader_inv ?l"
    by (rule loader_inv_run [OF loader_inv_initial])
  have "delivered_inv (initial_loader ms)"
    by (simp add: delivered_inv_def initial_loader_def)
  then have "delivered_inv ?l"
    by (rule delivered_inv_run [OF _ loader_inv_initial])
  then have sorted: "sorted_wrt (<) (delivered ?l)"
    by (simp add: delivered_inv_def)
  have one: "in_flight_requests ?l = [] \<or> in_flight_requests ?l = [length (requests ?l) - 1]"
    by (rule in_flight_requests_cases [OF inv])
  then have "length (in_flight_requests ?l) \<le> 1" by auto
  with one sorted load_aborts_previous [OF inv] load_in_flight [OF inv] respond_stale [OF inv]
  show ?thesis by blast
qed

theorem C2_at_most_one_fetch_in_flight_witness:
  "in_flight_requests (loader_run sample_clock [Load 10, Load 20] (initial_loader sample_settings)) = [1] \<and>
   respond 0 (loader_run sample_clock [Load 10, Load 20] (initial_loader sample_settings))
     = loader_run sample_clock [Load 10, Load 20] (initial_loader sample_settings) \<and>
   delivered (loader_run sample_clock [Load 10, Load 20, Respond 0, Respond 1]
     (initial_loader sample_settings)) = [1]"
proof -
  let ?l = "loader_run sample_clock [Load 10, Load 20] (initial_loader sample_settings)"
  have len1: "length (requests (loader_run sample_clock [Load 10] (initial_loader sample_settings))) = 1"
    by (simp add: loadMapMarkers_def Let_def initial_loader_def split: prod.splits)
  have len: "length (requests ?l) = 2"
    by (simp add: loadMapMarkers_def Let_def initial_loader_def split: prod.splits)
  have a: "in_flight_requests ?l = [1]"
    using C2_at_most_one_fetch_in_flight [of sample_clock "[Load 10]" sample_settings 20 0] len1
    by simp
  have b: "respond 0 ?l = ?l"
    using C2_at_most_one_fetch_in_flight [of sample_clock "[Load 10, Load 20]" sample_settings 0 0] len
    by simp
  have c: "delivered (loader_run sample_clock [Load 10, Load 20, Respond 0, Respond 1]
     (initial_loader sample_settings)) = [1]"
    by (simp add: loadMapMarkers_def Let_def initial_loader_def in_flight_def abort_def
        respond_def split: prod.splits)
  from a b c show ?thesis by blast
qed

text \<open>
  C5, as the spec states it: whenever a valid relative duration \<open>d\<close> is configured,
  filter derivation at the time \<open>T\<close> gives \<open>fileCreatedAfter = T - d\<close>. The duration
  of 999999999 years is valid, but \<open>T\<close> minus it is no valid date-time: \<open>toISO()\<close>
  gives \<open>null\<close>, and the filter has no \<open>fileCreatedAfter\<close>.
\<close>

theorem C5_out_of_range_counterexample:
  "Duration_fromISO sample_clock ''P999999999Y'' = Some 31535999968464000000 \<and>
   fileCreatedAfter
     (fst (getFileCreatedDates sample_clock 0 (sample_settings\<lparr>relativeDate := ''P999999999Y''\<rparr>)))
     = None"
  by (simp add: getFileCreatedDates_def sample_clock_def sample_settings_def)

text \<open>
  C5, amended: when the settings hold a relative duration that parses to the valid duration
  \<open>d\<close>, filter derivation at the time \<open>T\<close> leaves \<open>fileCreatedBefore\<close> unset, the
  stored \<open>dateAfter\<close> and \<open>dateBefore\<close> have no influence, and the settings stay as
  they are. \<open>fileCreatedAfter\<close> is the ISO string of \<open>T\<close> minus \<open>d\<close> where that is a
  valid date-time, and unset where it is not.
\<close>

theorem C5_relative_duration_sets_after_only:
  assumes "relativeDate ms \<noteq> []"
    and "Duration_fromISO K (relativeDate ms) = Some d"
  shows "getFileCreatedDates K T ms
           = (\<lparr>fileCreatedAfter = DateTime_toISO K (DateTime_minus K T d),
               fileCreatedBefore = None\<rparr>, ms) \<and>
         fst (getFileCreatedDates K T (ms\<lparr>dateAfter := a, dateBefore := b\<rparr>))
           = fst (getFileCreatedDates K T ms) \<and>
         (DateTime_toISO K (DateTime_minus K T d) = Some stamp \<longrightarrow>
            fileCreatedAfter (fst (getFileCreatedDates K T ms)) = Some stamp \<and>
            q_fileCreatedAfter (query (last (requests
              (snd (loadMapMarkers K T (l\<lparr>mapSettings := ms\<rparr>))))))
              = string_or_undefined (Some stamp)) \<and>
         (DateTime_toISO K (DateTime_minus K T d) = None \<longrightarrow>
            fileCreatedAfter (fst (getFileCreatedDates K T ms)) = None \<and>
            q_fileCreatedAfter (query (last (requests
              (snd (loadMapMarkers K T (l\<lparr>mapSettings := ms\<rparr>)))))) = None)"
proof -
  have g: "getFileCreatedDates K T ms
           = (\<lparr>fileCreatedAfter = DateTime_toISO K (DateTime_minus K T d),
               fileCreatedBefore = None\<rparr>, ms)"
    using assms by (simp add: getFileCreatedDates_def)
  have i: "fst (getFileCreatedDates K T (ms\<lparr>dateAfter := a, dateBefore := b\<rparr>))
           = fst (getFileCreatedDates K T ms)"
    using assms by (simp add: getFileCreatedDates_def)
  have q: "q_fileCreatedAfter (query (last (requests
              (snd (loadMapMarkers K T (l\<lparr>mapSettings := ms\<rparr>))))))
           = string_or_undefined (DateTime_toISO K (DateTime_minus K T d))"
    by (simp add: loadMapMarkers_def Let_def g)
  have n: "string_or_undefined None = None" by (simp add: string_or_undefined_def)
  show ?thesis using g i q n by simp
qed

theorem C5_relative_duration_sets_after_only_witness:
  "getFileCreatedDates sample_clock 604800000
     (sample_settings\<lparr>relativeDate := ''P7D'', dateAfter := ''junk''\<rparr>)
   = (\<lparr>fileCreatedAfter = Some ''1970-01-01T00:00:00.000+00:00'', fileCreatedBefore = None\<rparr>,
      sample_settings\<lparr>relativeDate := ''P7D'', dateAfter := ''junk''\<rparr>)"
  using C5_relative_duration_sets_after_only
    [of "sample_settings\<lparr>relativeDate := ''P7D'', dateAfter := ''junk''\<rparr>" sample_clock
        604800000 604800000 "[]" "[]"]
  by (simp add: sample_clock_def sample_settings_def sample_local_iso_def)

text \<open>
  C6: the stored absolute dates are parsed when no relative duration is set. If then a
  non-empty \<open>dateAfter\<close> or \<open>dateBefore\<close> does not parse, filter derivation returns
  no date bound and clears both stored fields; no error leaves it, and the request that
  \<open>loadMapMarkers\<close> issues carries neither \<open>fileCreatedAfter\<close> nor
  \<open>fileCreatedBefore\<close>.
\<close>

theorem C6_date_parse_failure_recovered:
  assumes "relativeDate ms = []"
    and "dateAfter ms \<noteq> [] \<and> Date_parse K (dateAfter ms) = None \<or>
         dateBefore ms \<noteq> [] \<and> Date_parse K (dateBefore ms) = None"
  shows "getFileCreatedDates K now ms
           = (\<lparr>fileCreatedAfter = None, fileCreatedBefore = None\<rparr>,
              ms\<lparr>dateAfter := [], dateBefore := []\<rparr>) \<and>
         q_fileCreatedAfter (query (last (requests (snd (loadMapMarkers K now (l\<lparr>mapSettings := ms\<rparr>))))))
           = None \<and>
         q_fileCreatedBefore (query (last (requests (snd (loadMapMarkers K now (l\<lparr>mapSettings := ms\<rparr>))))))
           = None \<and>
         mapSettings (snd (loadMapMarkers K now (l\<lparr>mapSettings := ms\<rparr>)))
           = ms\<lparr>dateAfter := [], dateBefore := []\<rparr>"
proof -
  have "\<exists>e. absolute_dates K ms = Inl e"
    using assms(2)
    by (auto simp: absolute_dates_def toISOString_of_def split: sum.splits option.splits)
  then have g: "getFileCreatedDates K now ms
           = (\<lparr>fileCreatedAfter = None, fileCreatedBefore = None\<rparr>,
              ms\<lparr>dateAfter := [], dateBefore := []\<rparr>)"
    using assms(1) by (auto simp: getFileCreatedDates_def)
  then show ?thesis
    by (simp add: loadMapMarkers_def Let_def string_or_undefined_def)
qed

theorem C6_date_parse_failure_recovered_witness:
  "getFileCreatedDates sample_clock 5 (sample_settings\<lparr>dateAfter := ''junk'', dateBefore := ''1970-01-01''\<rparr>)
     = (\<lparr>fileCreatedAfter = None, fileCreatedBefore = None\<rparr>, sample_settings) \<and>
   q_fileCreatedBefore (query (last (requests (snd (loadMapMarkers sample_clock 5
       (initial_loader (sample_settings\<lparr>dateAfter := ''junk'', dateBefore := ''1970-01-01''\<rparr>))))))) = None"
  using C6_date_parse_failure_recovered
    [of "sample_settings\<lparr>dateAfter := ''junk'', dateBefore := ''1970-01-01''\<rparr>" sample_clock 5
        "initial_loader (sample_settings\<lparr>dateAfter := ''junk'', dateBefore := ''1970-01-01''\<rparr>)"]
  by (simp add: sample_clock_def sample_settings_def initial_loader_def)

section \<open>Properties of script loading\<close>

lemma attach_None: "attach p src ss = None \<longleftrightarrow> (\<forall>e \<in> set ss. src_property e \<noteq> src)"
  by (induction ss) auto

lemma attach_Some:
  "attach p src ss = Some ss' \<Longrightarrow>
   \<exists>pre e post. ss = pre @ e # post \<and> ss' = pre @ e\<lparr>waiters := waiters e @ [p]\<rparr> # post \<and>
     src_property e = src"
proof (induction ss arbitrary: ss')
  case Nil
  then show ?case by simp
next
  case (Cons s ss)
  show ?case
  proof (cases "src_property s = src")
    case True
    with Cons.prems have "ss' = s\<lparr>waiters := waiters s @ [p]\<rparr> # ss" by simp
    with True show ?thesis by (intro exI [of _ "[]"]) auto
  next
    case False
    with Cons.prems obtain t where t: "attach p src ss = Some t" "ss' = s # t" by auto
    from Cons.IH [OF t(1)] obtain pre e post where
      "ss = pre @ e # post" "t = pre @ e\<lparr>waiters := waiters e @ [p]\<rparr> # post" "src_property e = src"
      by blast
    with t(2) show ?thesis by (intro exI [of _ "s # pre"]) auto
  qed
qed

lemma length_fold_settle: "length (fold (settle out) ws fs) = length fs"
  by (induction ws arbitrary: fs) (simp_all add: settle_def)

lemma fold_settle_nth:
  "distinct ws \<Longrightarrow> q < length fs \<Longrightarrow>
   fold (settle out) ws fs ! q = (if q \<in> set ws then fs ! q @ [out] else fs ! q)"
proof (induction ws arbitrary: fs)
  case Nil
  then show ?case by simp
next
  case (Cons w ws)
  have "fold (settle out) (w # ws) fs ! q = fold (settle out) ws (settle out w fs) ! q"
    by simp
  also have "\<dots> = (if q \<in> set ws then settle out w fs ! q @ [out] else settle out w fs ! q)"
    using Cons.prems by (intro Cons.IH) (simp_all add: settle_def)
  also have "\<dots> = (if q \<in> set (w # ws) then fs ! q @ [out] else fs ! q)"
    using Cons.prems by (cases "q = w") (auto simp: settle_def nth_list_update)
  finally show ?case .
qed



lemma doc_inv_empty: "doc_inv href empty_document"
  by (simp add: doc_inv_def empty_document_def)

lemma doc_inv_globals:
  "doc_inv href d \<Longrightarrow> doc_inv href (d\<lparr>window_naver_maps := a, window_MarkerClustering := b\<rparr>)"
  by (simp add: doc_inv_def)

lemma doc_inv_call:
  assumes inv: "doc_inv href d"
  shows "doc_inv href (snd (appendScriptOnce href src ready d))"
proof -
  let ?p = "length (futures d)"
  have bound: "p < length (futures d)" if "e \<in> set (scripts d)" "p \<in> set (waiters e)" for e p
    using inv that by (auto simp: doc_inv_def)
  have bound': "p < Suc (length (futures d))" if "e \<in> set (scripts d)" "p \<in> set (waiters e)" for e p
    using bound [OF that] by simp
  have fresh: "?p \<notin> set (waiters e)" if "e \<in> set (scripts d)" for e
    using bound [OF that] by auto
  show ?thesis
  proof (cases "ready d")
    case True
    then have r: "snd (appendScriptOnce href src ready d) = d\<lparr>futures := futures d @ [[Resolved]]\<rparr>"
      by (simp add: appendScriptOnce_def)
    show ?thesis
      unfolding r using inv fresh bound' by (auto simp: doc_inv_def nth_append)
  next
    case notready: False
    show ?thesis
    proof (cases "attach ?p src (scripts d)")
      case None
      then show ?thesis
        using inv notready fresh bound'
        by (auto simp: doc_inv_def appendScriptOnce_def Let_def nth_append)
    next
      case (Some ss)
      from attach_Some [OF Some] obtain pre e post where
        ss: "scripts d = pre @ e # post" "ss = pre @ e\<lparr>waiters := waiters e @ [?p]\<rparr> # post"
        by blast
      have fresh': "?p \<notin> set (waiters x)" if "x \<in> set pre \<or> x = e \<or> x \<in> set post" for x
        using fresh [of x] that ss(1) by auto
      have bound'': "p < Suc (length (futures d))"
        if "x \<in> set pre \<or> x = e \<or> x \<in> set post" "p \<in> set (waiters x)" for x p
        using bound' [of x p] that ss(1) by auto
      show ?thesis
        using inv notready Some fresh' bound''
        by (auto simp: doc_inv_def appendScriptOnce_def Let_def nth_append ss)
    qed
  qed
qed

lemma doc_inv_fire:
  assumes inv: "doc_inv href d"
  shows "doc_inv href (fire ev i d)"
proof (cases "i < length (scripts d) \<and> load_state (scripts d ! i) = Loading")
  case False
  then have "fire ev i d = d" by (auto simp: fire_def)
  then show ?thesis using inv by simp
next
  case True
  define e where "e = scripts d ! i"
  define out where "out = (case ev of LoadEvent \<Rightarrow> Resolved | ErrorEvent \<Rightarrow> Rejected)"
  define st where "st = (case ev of LoadEvent \<Rightarrow> Loaded | ErrorEvent \<Rightarrow> Failed)"
  define fs' where "fs' = fold (settle out) (waiters e) (futures d)"
  define pre where "pre = take i (scripts d)"
  define post where "post = drop (Suc i) (scripts d)"
  have ss: "scripts d = pre @ e # post"
    using True by (simp add: pre_def post_def e_def id_take_nth_drop)
  have ss': "(scripts d)[i := e\<lparr>load_state := st\<rparr>] = pre @ e\<lparr>load_state := st\<rparr> # post"
    using True by (simp add: pre_def post_def upd_conv_take_nth_drop)
  have fired: "fire ev i d = d\<lparr>scripts := pre @ e\<lparr>load_state := st\<rparr> # post, futures := fs'\<rparr>"
    using True ss' by (simp add: fire_def e_def out_def st_def fs'_def)
  have st: "st \<noteq> Loading" by (simp add: st_def split: script_event.splits)
  have loading: "load_state e = Loading" using True by (simp add: e_def)
  have dist: "distinct (waiters e)"
    and disj: "\<And>x p. x \<in> set pre \<or> x \<in> set post \<Longrightarrow> p \<in> set (waiters x) \<Longrightarrow> p \<notin> set (waiters e)"
    using inv by (auto simp: doc_inv_def ss)
  have len: "length fs' = length (futures d)"
    by (simp add: fs'_def length_fold_settle)
  have nth: "fs' ! q = (if q \<in> set (waiters e) then futures d ! q @ [out] else futures d ! q)"
    if "q < length (futures d)" for q
    unfolding fs'_def using dist that by (rule fold_settle_nth)
  have pending: "futures d ! p = []" if "p \<in> set (waiters e)" for p
    using inv loading that by (auto simp: doc_inv_def ss)
  have bound: "p < length (futures d)" if "x \<in> set (scripts d)" "p \<in> set (waiters x)" for x p
    using inv that by (auto simp: doc_inv_def)
  have c1: "\<forall>x \<in> set (pre @ e\<lparr>load_state := st\<rparr> # post). src_property x = href (assigned_src x)"
    using inv by (auto simp: doc_inv_def ss)
  have c2: "\<forall>x \<in> set (pre @ e\<lparr>load_state := st\<rparr> # post). \<forall>p \<in> set (waiters x). p < length fs'"
    using inv by (auto simp: doc_inv_def ss len)
  have c3: "distinct (concat (map waiters (pre @ e\<lparr>load_state := st\<rparr> # post)))"
    using inv by (auto simp: doc_inv_def ss)
  have c4: "\<forall>x \<in> set (pre @ e\<lparr>load_state := st\<rparr> # post). load_state x = Loading \<longrightarrow>
              (\<forall>p \<in> set (waiters x). fs' ! p = [])"
  proof (intro ballI impI)
    fix x p
    assume x: "x \<in> set (pre @ e\<lparr>load_state := st\<rparr> # post)" "load_state x = Loading"
      and p: "p \<in> set (waiters x)"
    from x st have x': "x \<in> set pre \<or> x \<in> set post" by auto
    then have xin: "x \<in> set (scripts d)" by (auto simp: ss)
    have "p \<notin> set (waiters e)" using disj [OF x' p] .
    moreover have "p < length (futures d)" using bound [OF xin p] .
    moreover have "futures d ! p = []"
      using inv xin x(2) p by (auto simp: doc_inv_def)
    ultimately show "fs' ! p = []" by (simp add: nth)
  qed
  have c5: "\<forall>f \<in> set fs'. length f \<le> 1"
  proof
    fix f assume "f \<in> set fs'"
    then obtain q where q: "q < length (futures d)" "f = fs' ! q"
      by (auto simp: in_set_conv_nth len)
    have "length (futures d ! q) \<le> 1"
      using inv q(1) by (auto simp: doc_inv_def)
    then show "length f \<le> 1"
      using q pending by (auto simp: nth)
  qed
  show ?thesis
    unfolding fired doc_inv_def using c1 c2 c3 c4 c5 by simp
qed

lemma doc_inv_step: "doc_inv href d \<Longrightarrow> doc_inv href (doc_step href e d)"
  by (cases e) (simp_all add: doc_inv_call doc_inv_fire doc_inv_globals)

lemma doc_inv_run: "doc_inv href d \<Longrightarrow> doc_inv href (doc_run href es d)"
  by (induction es arbitrary: d) (simp_all add: doc_inv_step)


lemma attach_assigned:
  "attach p src ss = Some ss' \<Longrightarrow> map assigned_src ss' = map assigned_src ss"
  by (induction ss arbitrary: ss') (auto split: if_splits)

lemma inserted_cong:
  assumes "map assigned_src (scripts d') = map assigned_src (scripts d)"
  shows "inserted src d' = inserted src d"
proof -
  have "inserted src x = length (filter (\<lambda>a. a = src) (map assigned_src (scripts x)))" for x
    by (simp add: inserted_def filter_map comp_def)
  then show ?thesis by (simp only: assms)
qed

lemma inserted_attached:
  assumes "\<not> ready d" "attach (length (futures d)) src' (scripts d) = Some ss"
  shows "inserted src (snd (appendScriptOnce href src' ready d)) = inserted src d"
proof (rule inserted_cong)
  show "map assigned_src (scripts (snd (appendScriptOnce href src' ready d)))
          = map assigned_src (scripts d)"
    using assms attach_assigned [OF assms(2)] by (simp add: appendScriptOnce_def Let_def)
qed

lemma inserted_call:
  assumes href: "href src = src" and inv: "doc_inv href d" and one: "inserted src d \<le> 1"
  shows "inserted src (snd (appendScriptOnce href src' ready d)) \<le> 1"
proof (cases "ready d")
  case True
  then show ?thesis using one by (simp add: appendScriptOnce_def Let_def inserted_def)
next
  case notready: False
  show ?thesis
  proof (cases "attach (length (futures d)) src' (scripts d)")
    case (Some ss)
    then show ?thesis
      using one inserted_attached [of ready d src' ss src href, OF notready Some] by simp
  next
    case None
    show ?thesis
    proof (cases "src' = src")
      case False
      then show ?thesis
        using one notready None by (simp add: appendScriptOnce_def Let_def inserted_def)
    next
      case True
      have "src_property e \<noteq> src" if "e \<in> set (scripts d)" for e
        using None that True by (simp add: attach_None)
      moreover have "src_property e = href (assigned_src e)" if "e \<in> set (scripts d)" for e
        using inv that by (simp add: doc_inv_def)
      ultimately have "assigned_src e \<noteq> src" if "e \<in> set (scripts d)" for e
        using href that by metis
      then have "filter (\<lambda>e. assigned_src e = src) (scripts d) = []"
        by (simp add: filter_empty_conv)
      then show ?thesis
        using notready None by (simp add: appendScriptOnce_def Let_def inserted_def)
    qed
  qed
qed

lemma inserted_call_mono: "inserted src d \<le> inserted src (snd (appendScriptOnce href src' ready d))"
proof (cases "ready d")
  case True
  then show ?thesis by (simp add: appendScriptOnce_def Let_def inserted_def)
next
  case notready: False
  show ?thesis
  proof (cases "attach (length (futures d)) src' (scripts d)")
    case None
    then show ?thesis using notready by (simp add: appendScriptOnce_def Let_def inserted_def)
  next
    case (Some ss)
    then show ?thesis
      using inserted_attached [of ready d src' ss src href, OF notready Some] by simp
  qed
qed

lemma inserted_fire: "inserted src (fire ev i d) = inserted src d"
proof (rule inserted_cong)
  show "map assigned_src (scripts (fire ev i d)) = map assigned_src (scripts d)"
    by (simp add: fire_def map_update list_update_same_conv)
qed

lemma inserted_step:
  assumes "href src = src" "doc_inv href d" "inserted src d \<le> 1"
  shows "inserted src (doc_step href e d) \<le> 1"
proof (cases e)
  case (Call src' ready)
  then show ?thesis using inserted_call [OF assms] by simp
next
  case (Fire ev i)
  then show ?thesis using assms(3) by (simp add: inserted_fire)
next
  case (SetGlobals a b)
  then show ?thesis using assms(3) by (simp add: inserted_def)
qed

lemma inserted_step_mono: "inserted src d \<le> inserted src (doc_step href e d)"
proof (cases e)
  case (Call src' ready)
  then show ?thesis using inserted_call_mono [of src d href src' ready] by simp
next
  case (Fire ev i)
  then show ?thesis by (simp add: inserted_fire)
next
  case (SetGlobals a b)
  then show ?thesis by (simp add: inserted_def)
qed

lemma inserted_run:
  "href src = src \<Longrightarrow> doc_inv href d \<Longrightarrow> inserted src d \<le> 1 \<Longrightarrow>
   inserted src (doc_run href es d) \<le> 1"
proof (induction es arbitrary: d)
  case Nil
  then show ?case by simp
next
  case (Cons e es)
  have "inserted src (doc_run href es (doc_step href e d)) \<le> 1"
    using Cons.prems by (intro Cons.IH inserted_step doc_inv_step)
  then show ?case by simp
qed

lemma inserted_run_mono: "inserted src d \<le> inserted src (doc_run href es d)"
proof (induction es arbitrary: d)
  case Nil
  show ?case by simp
next
  case (Cons e es)
  have "inserted src d \<le> inserted src (doc_step href e d)" by (rule inserted_step_mono)
  also have "\<dots> \<le> inserted src (doc_run href es (doc_step href e d))" by (rule Cons.IH)
  finally show ?case by simp
qed

lemma fire_settles_waiters:
  assumes inv: "doc_inv href d"
    and i: "i < length (scripts d)" "load_state (scripts d ! i) = Loading"
    and p: "p \<in> set (waiters (scripts d ! i))"
  shows "futures (fire ev i d) ! p
           = [case ev of LoadEvent \<Rightarrow> Resolved | ErrorEvent \<Rightarrow> Rejected]"
proof -
  let ?out = "case ev of LoadEvent \<Rightarrow> Resolved | ErrorEvent \<Rightarrow> Rejected"
  have e: "scripts d ! i \<in> set (scripts d)" using i(1) by simp
  have ss: "scripts d = take i (scripts d) @ (scripts d ! i) # drop (Suc i) (scripts d)"
    using i(1) by (simp add: id_take_nth_drop)
  have "distinct (concat (map waiters (scripts d)))" using inv by (simp add: doc_inv_def)
  then have "distinct (concat (map waiters
      (take i (scripts d) @ (scripts d ! i) # drop (Suc i) (scripts d))))"
    using ss by simp
  then have dist: "distinct (waiters (scripts d ! i))" by simp
  have bound: "p < length (futures d)" using inv e p by (auto simp: doc_inv_def)
  have pending: "futures d ! p = []" using inv e i(2) p by (auto simp: doc_inv_def)
  have "futures (fire ev i d) ! p
          = fold (settle ?out) (waiters (scripts d ! i)) (futures d) ! p"
    using i by (simp add: fire_def)
  also have "\<dots> = futures d ! p @ [?out]"
    using fold_settle_nth [OF dist bound, of ?out] p by simp
  finally show ?thesis using pending by simp
qed










lemma empty_document_facts:
  "doc_inv href empty_document" "inserted src empty_document = 0"
  by (simp_all add: doc_inv_def empty_document_def inserted_def)

lemma first_call_inserts:
  "\<not> ready empty_document \<Longrightarrow>
   inserted src (snd (appendScriptOnce href src ready empty_document)) = 1"
  by (simp add: appendScriptOnce_def Let_def inserted_def empty_document_def)

text \<open>
  For a \<open>src\<close> that the document reads back unchanged, the check for an existing
  element works. Starting from a document without script elements, over every sequence of
  calls of \<open>appendScriptOnce\<close> and script events, at most one script element is given
  this \<open>src\<close>, and exactly one when the first call finds the readiness check false; a
  call that finds the check true inserts nothing and returns a resolved future; no future
  is settled more than once, and when a pending script fires \<open>load\<close> (or \<open>error\<close>),
  every future registered on it until then is resolved (or rejected) by that one
  settlement.
\<close>

lemma unchanged_src_inserted_once:
  assumes "href src = src"
  shows "inserted src (doc_run href es empty_document) \<le> 1 \<and>
         (ready empty_document \<or>
          inserted src (doc_run href (Call src ready # es) empty_document) = 1) \<and>
         list_all (\<lambda>f. length f \<le> 1) (futures (doc_run href es empty_document)) \<and>
         (ready d \<longrightarrow>
            appendScriptOnce href src ready d
              = (length (futures d), d\<lparr>futures := futures d @ [[Resolved]]\<rparr>)) \<and>
         (i < length (scripts (doc_run href es empty_document)) \<and>
          load_state (scripts (doc_run href es empty_document) ! i) = Loading \<longrightarrow>
            list_all
              (\<lambda>p. futures (fire ev i (doc_run href es empty_document)) ! p
                     = [case ev of LoadEvent \<Rightarrow> Resolved | ErrorEvent \<Rightarrow> Rejected])
              (waiters (scripts (doc_run href es empty_document) ! i)))"
proof -
  let ?D = "doc_run href es empty_document"
  have inv: "doc_inv href ?D"
    by (rule doc_inv_run) (rule empty_document_facts)
  have a: "inserted src ?D \<le> 1"
    using assms by (rule inserted_run) (simp_all add: empty_document_facts)
  have b: "inserted src (doc_run href (Call src ready # es) empty_document) = 1"
    if "\<not> ready empty_document"
  proof -
    let ?d1 = "snd (appendScriptOnce href src ready empty_document)"
    have one: "inserted src ?d1 = 1" using that by (rule first_call_inserts)
    have "doc_inv href ?d1" by (rule doc_inv_call) (rule empty_document_facts)
    then have "inserted src (doc_run href es ?d1) \<le> 1"
      using assms one by (intro inserted_run) simp_all
    moreover have "inserted src ?d1 \<le> inserted src (doc_run href es ?d1)"
      by (rule inserted_run_mono)
    ultimately show ?thesis using one by simp
  qed
  have c: "list_all (\<lambda>f. length f \<le> 1) (futures ?D)"
    using inv by (simp add: doc_inv_def list_all_iff)
  have r: "ready d \<longrightarrow>
            appendScriptOnce href src ready d
              = (length (futures d), d\<lparr>futures := futures d @ [[Resolved]]\<rparr>)"
    by (simp add: appendScriptOnce_def)
  have f: "i < length (scripts ?D) \<and> load_state (scripts ?D ! i) = Loading \<longrightarrow>
            list_all (\<lambda>p. futures (fire ev i ?D) ! p
                     = [case ev of LoadEvent \<Rightarrow> Resolved | ErrorEvent \<Rightarrow> Rejected])
              (waiters (scripts ?D ! i))"
    using fire_settles_waiters [OF inv] by (auto simp: list_all_iff)
  from a b c r f show ?thesis by blast
qed

text \<open>
  C3: calls with an identical \<open>src\<close> should insert one script element, later callers
  attaching to the existing load, and every caller's future should resolve once. The check
  for an existing element compares the string read from an element's \<open>src\<close>, which the
  document gives in resolved form, with the string that was requested. For the mapping
  library's absolute URL the two agree, and a second call attaches to the pending element.
  For the clustering plugin's path \<open>/MarkerClustering.js\<close> they never agree: a second
  call while the first load is pending finds no existing element and inserts a second one,
  each caller waiting on an element of its own. And a caller that finds an element whose
  \<open>load\<close> or \<open>error\<close> event has fired already is attached to it all the same: its
  future stays pending, and no event of that element changes the document any more.
\<close>

theorem C3_relative_src_inserted_twice:
  "inserted clusteringUrl clustering_called_twice = 2 \<and>
   map src_property (scripts clustering_called_twice)
     = [''https://photos.example/MarkerClustering.js'',
        ''https://photos.example/MarkerClustering.js''] \<and>
   map load_state (scripts clustering_called_twice) = [Loading, Loading] \<and>
   map waiters (scripts clustering_called_twice) = [[0], [1]] \<and>
   inserted (mapsUrl ''id'') maps_called_twice = 1 \<and>
   map waiters (scripts maps_called_twice) = [[0, 1]] \<and>
   map load_state (scripts failed_then_called_again) = [Failed] \<and>
   futures failed_then_called_again = [[Rejected], []] \<and>
   fire LoadEvent 0 failed_then_called_again = failed_then_called_again \<and>
   fire ErrorEvent 0 failed_then_called_again = failed_then_called_again"
proof -
  have a: "inserted clusteringUrl clustering_called_twice = 2 \<and>
   map src_property (scripts clustering_called_twice)
     = [''https://photos.example/MarkerClustering.js'',
        ''https://photos.example/MarkerClustering.js''] \<and>
   map load_state (scripts clustering_called_twice) = [Loading, Loading] \<and>
   map waiters (scripts clustering_called_twice) = [[0], [1]]"
    by (simp add: clustering_called_twice_def empty_document_def appendScriptOnce_def Let_def
        inserted_def never_ready_def sample_href_def clusteringUrl_def)
  have b: "inserted (mapsUrl ''id'') maps_called_twice = 1 \<and>
   map waiters (scripts maps_called_twice) = [[0, 1]]"
    by (simp add: maps_called_twice_def empty_document_def appendScriptOnce_def Let_def
        inserted_def never_ready_def sample_href_def mapsUrl_def)
  have c: "map load_state (scripts failed_then_called_again) = [Failed] \<and>
   futures failed_then_called_again = [[Rejected], []] \<and>
   fire LoadEvent 0 failed_then_called_again = failed_then_called_again \<and>
   fire ErrorEvent 0 failed_then_called_again = failed_then_called_again"
    by (simp add: failed_then_called_again_def empty_document_def appendScriptOnce_def Let_def
        fire_def settle_def never_ready_def sample_href_def mapsUrl_def)
  from a b c show ?thesis by blast
qed




section \<open>Properties of startup and teardown\<close>

text \<open>
  Whatever the startup did, the framework holds a promise, and unmounting changes nothing.
\<close>

lemma unmount_ignores_promise: "unmount (fst (mount K now stack_ok fetched cs pg)) pg' = pg'"
  by (simp add: mount_def unmount_def case_prod_beta)

lemma one_marker_mounted_page:
  "snd one_marker_mounted
     = \<lparr>loader =
          respond (fst (loadMapMarkers sample_clock 0 (initial_loader sample_settings)))
            (snd (loadMapMarkers sample_clock 0 (initial_loader sample_settings))),
        listeners =
          [\<lparr>handle = 0, target = MarkerTarget 0, event_name = MouseOver\<rparr>,
           \<lparr>handle = 1, target = MarkerTarget 0, event_name = MouseOut\<rparr>,
           \<lparr>handle = 2, target = MapTarget, event_name = IdleEvent\<rparr>,
           \<lparr>handle = 3, target = MarkerTarget 0, event_name = Click\<rparr>],
        next_handle = 4, map_created = True,
        markers = [make_marker \<lparr>dto_id = ''m1'', dto_lat = 37, dto_lon = 127\<rparr>],
        clusterer_on_map = Some True\<rparr> \<and>
   fst one_marker_mounted = ReturnedPromise (Some \<lparr>idleListener = 2\<rparr>)"
  by (simp add: one_marker_mounted_def mount_def onMount_def Let_def case_prod_beta
      register_clicks_def addListener_def initial_page_def)

text \<open>
  C9: the teardown should remove all listeners registered during startup, detach the
  clusterer and cancel an outstanding fetch. The callback given to \<open>onMount\<close> is async,
  so what it returns reaches the framework inside a promise and is never called: after a
  complete startup with one marker, unmounting leaves all four listeners registered and
  the clusterer attached, and unmounting while the startup awaits the marker request
  leaves that request in flight. The returned function itself, where it is run, removes
  the idle listener only: the marker's three listeners stay registered.
\<close>

theorem C9_teardown_never_runs:
  "fst one_marker_mounted = ReturnedPromise (Some \<lparr>idleListener = 2\<rparr>) \<and>
   map event_name (listeners (snd one_marker_mounted)) = [MouseOver, MouseOut, IdleEvent, Click] \<and>
   unmount (fst one_marker_mounted) (snd one_marker_mounted) = snd one_marker_mounted \<and>
   clusterer_on_map (unmount (fst one_marker_mounted) (snd one_marker_mounted)) = Some True \<and>
   in_flight_requests (loader awaiting_markers) = [0] \<and>
   in_flight_requests (loader (unmount (fst one_marker_mounted) awaiting_markers)) = [0] \<and>
   map event_name (listeners (run_cleanup \<lparr>idleListener = 2\<rparr> (snd one_marker_mounted)))
     = [MouseOver, MouseOut, Click]"
proof -
  note m = one_marker_mounted_page
  have u: "unmount (fst one_marker_mounted) pg = pg" for pg
    by (simp add: m unmount_def)
  have f: "in_flight_requests (loader awaiting_markers) = [0]"
    by (simp add: awaiting_markers_def loadMapMarkers_def Let_def case_prod_beta
        initial_loader_def in_flight_requests_def in_flight_def)
  have r: "map event_name (listeners (run_cleanup \<lparr>idleListener = 2\<rparr> (snd one_marker_mounted)))
     = [MouseOver, MouseOut, Click]"
    by (simp add: m run_cleanup_def removeListener_def Let_def)
  show ?thesis using f r by (simp add: u) (simp add: m)
qed

end
